theory Spec2Isabelle
  imports Complex_Main "HOL-Library.Multiset"
begin

section \<open>The rule-based hand-pose classifier of \<open>model.py\<close>\<close>

text \<open>
  The development embeds class \<open>GestureRecognizer\<close> of \<open>src/asl-app/model.py\<close>:
  the geometry helpers \<open>_get_distance\<close> and \<open>_is_finger_closed\<close>, the 26 rule
  lambdas built by \<open>_init_classifier\<close>, the scorer \<open>_get_gesture_confidence\<close>, the
  selector \<open>_recognize_gesture\<close> and the acceptance test of \<open>process_frame\<close>.

  Coordinates and confidences are Python floats in the source. They are modelled as
  real numbers: comparisons, sums and the square root are the exact ones, and the
  rounding of binary floating point is not modelled.
\<close>

subsection \<open>Landmarks, errors and indexing\<close>

text \<open>A landmark is an object with the three float attributes \<open>x\<close>, \<open>y\<close>, \<open>z\<close>.\<close>

record landmark =
  x :: real
  y :: real
  z :: real

text \<open>
  The only exception the classifier can meet on a sequence of landmarks is the
  \<open>IndexError\<close> of \<open>landmarks[i]\<close> with \<open>i\<close> beyond the end.
\<close>

datatype error = IndexError

definition item :: "landmark list \<Rightarrow> nat \<Rightarrow> error + landmark" where
  "item landmarks i = (if i < length landmarks then Inr (landmarks ! i) else Inl IndexError)"

text \<open>Sequencing of a computation that may raise.\<close>

definition bind :: "error + 'a \<Rightarrow> ('a \<Rightarrow> error + 'b) \<Rightarrow> error + 'b" where
  "bind m f = (case m of Inl e \<Rightarrow> Inl e | Inr v \<Rightarrow> f v)"

text \<open>
  \<open>with2 landmarks i j f\<close> is an expression that reads \<open>landmarks[i]\<close>, then
  \<open>landmarks[j]\<close>, and combines the two landmarks with \<open>f\<close>.
\<close>

definition with2 :: "landmark list \<Rightarrow> nat \<Rightarrow> nat \<Rightarrow> (landmark \<Rightarrow> landmark \<Rightarrow> 'a) \<Rightarrow> error + 'a" where
  "with2 landmarks i j f =
     bind (item landmarks i) (\<lambda>a. bind (item landmarks j) (\<lambda>b. Inr (f a b)))"

text \<open>Python's \<open>not e\<close> on a boolean expression that may raise.\<close>

definition not_expr :: "error + bool \<Rightarrow> error + bool" where
  "not_expr e = bind e (\<lambda>b. Inr (\<not> b))"

text \<open>
  Python's \<open>e1 and e2 and ... and en\<close> on boolean operands: the operands are evaluated
  from the left, the first false one ends the evaluation with \<open>False\<close>, and an operand
  that raises ends it with the exception. Operands to the right of the one that ended
  the evaluation are not evaluated, so an exception they would raise is not raised.
\<close>

fun and_chain :: "(error + bool) list \<Rightarrow> error + bool" where
  "and_chain [] = Inr True"
| "and_chain (e # es) =
     (case e of Inl err \<Rightarrow> Inl err | Inr False \<Rightarrow> Inr False | Inr True \<Rightarrow> and_chain es)"

subsection \<open>Geometry helpers\<close>

definition get_distance :: "landmark \<Rightarrow> landmark \<Rightarrow> real" where
  "get_distance landmark1 landmark2 =
     sqrt ((x landmark1 - x landmark2)\<^sup>2 +
           (y landmark1 - y landmark2)\<^sup>2 +
           (z landmark1 - z landmark2)\<^sup>2)"

definition is_finger_closed :: "landmark list \<Rightarrow> nat \<Rightarrow> error + bool" where
  "is_finger_closed landmarks finger_idx =
     (if finger_idx = 0 then
        with2 landmarks 3 4 (\<lambda>l3 l4. y l3 > y l4)
      else
        let base_idx = finger_idx * 4 + 1;
            middle_idx = finger_idx * 4 + 2;
            tip_idx = finger_idx * 4 + 3
        in bind (with2 landmarks base_idx middle_idx get_distance) (\<lambda>base_to_middle.
           bind (with2 landmarks middle_idx tip_idx get_distance) (\<lambda>middle_to_tip.
           bind (with2 landmarks base_idx tip_idx get_distance) (\<lambda>base_to_tip.
           Inr (base_to_tip < (base_to_middle + middle_to_tip) * 0.7)))))"

subsection \<open>The rule table\<close>

text \<open>
  A rule is one of the lambdas stored in \<open>self.rules\<close>: a boolean expression over the
  landmarks that may raise. Each is the \<open>and\<close> of its operands, in the order of the source.
\<close>

type_synonym rule = "landmark list \<Rightarrow> error + bool"

text \<open>A: Fist with thumb pointing up.\<close>

definition rule_A :: rule where
  "rule_A landmarks = and_chain
     [is_finger_closed landmarks 1,
      is_finger_closed landmarks 2,
      is_finger_closed landmarks 3,
      is_finger_closed landmarks 4,
      not_expr (is_finger_closed landmarks 0)]"

text \<open>B: All fingers extended and together.\<close>

definition rule_B :: rule where
  "rule_B landmarks = and_chain
     [not_expr (is_finger_closed landmarks 1),
      not_expr (is_finger_closed landmarks 2),
      not_expr (is_finger_closed landmarks 3),
      not_expr (is_finger_closed landmarks 4)]"

text \<open>C: Fingers together curved in C shape.\<close>

definition rule_C :: rule where
  "rule_C landmarks = and_chain
     [with2 landmarks 4 8 (\<lambda>a b. get_distance a b < 0.1),
      not_expr (is_finger_closed landmarks 1),
      not_expr (is_finger_closed landmarks 2),
      not_expr (is_finger_closed landmarks 3),
      not_expr (is_finger_closed landmarks 4)]"

text \<open>D: Index finger pointing up, others closed.\<close>

definition rule_D :: rule where
  "rule_D landmarks = and_chain
     [not_expr (is_finger_closed landmarks 1),
      is_finger_closed landmarks 2,
      is_finger_closed landmarks 3,
      is_finger_closed landmarks 4]"

text \<open>E: All fingers curled, palm facing out.\<close>

definition rule_E :: rule where
  "rule_E landmarks = and_chain
     [is_finger_closed landmarks 1,
      is_finger_closed landmarks 2,
      is_finger_closed landmarks 3,
      is_finger_closed landmarks 4]"

text \<open>F: Index finger and thumb touch, other fingers extended.\<close>

definition rule_F :: rule where
  "rule_F landmarks = and_chain
     [with2 landmarks 4 8 (\<lambda>a b. get_distance a b < 0.05),
      not_expr (is_finger_closed landmarks 2),
      not_expr (is_finger_closed landmarks 3),
      not_expr (is_finger_closed landmarks 4)]"

text \<open>G: Index pointing, thumb extended.\<close>

definition rule_G :: rule where
  "rule_G landmarks = and_chain
     [not_expr (is_finger_closed landmarks 1),
      is_finger_closed landmarks 2,
      is_finger_closed landmarks 3,
      is_finger_closed landmarks 4,
      not_expr (is_finger_closed landmarks 0)]"

text \<open>H: Index and middle finger extended together.\<close>

definition rule_H :: rule where
  "rule_H landmarks = and_chain
     [not_expr (is_finger_closed landmarks 1),
      not_expr (is_finger_closed landmarks 2),
      is_finger_closed landmarks 3,
      is_finger_closed landmarks 4]"

text \<open>I: Pinky finger extended, others closed.\<close>

definition rule_I :: rule where
  "rule_I landmarks = and_chain
     [is_finger_closed landmarks 1,
      is_finger_closed landmarks 2,
      is_finger_closed landmarks 3,
      not_expr (is_finger_closed landmarks 4)]"

text \<open>J: Pinky extended and moving in J shape.\<close>

definition rule_J :: rule where
  "rule_J landmarks = and_chain
     [is_finger_closed landmarks 1,
      is_finger_closed landmarks 2,
      is_finger_closed landmarks 3,
      not_expr (is_finger_closed landmarks 4)]"

text \<open>K: Index and middle finger in V, thumb between.\<close>

definition rule_K :: rule where
  "rule_K landmarks = and_chain
     [not_expr (is_finger_closed landmarks 1),
      not_expr (is_finger_closed landmarks 2),
      is_finger_closed landmarks 3,
      is_finger_closed landmarks 4,
      with2 landmarks 4 10 (\<lambda>a b. get_distance a b < 0.1)]"

text \<open>L: Index finger and thumb in L shape.\<close>

definition rule_L :: rule where
  "rule_L landmarks = and_chain
     [not_expr (is_finger_closed landmarks 1),
      is_finger_closed landmarks 2,
      is_finger_closed landmarks 3,
      is_finger_closed landmarks 4,
      with2 landmarks 4 3 (\<lambda>a b. x a > x b)]"

text \<open>M: Thumb tucked between folded fingers.\<close>

definition rule_M :: rule where
  "rule_M landmarks = and_chain
     [is_finger_closed landmarks 1,
      is_finger_closed landmarks 2,
      is_finger_closed landmarks 3,
      with2 landmarks 4 5 (\<lambda>a b. x a < x b)]"

text \<open>N: Thumb tucked under index and middle fingers.\<close>

definition rule_N :: rule where
  "rule_N landmarks = and_chain
     [is_finger_closed landmarks 1,
      is_finger_closed landmarks 2,
      is_finger_closed landmarks 3,
      is_finger_closed landmarks 4,
      with2 landmarks 4 9 (\<lambda>a b. x a < x b)]"

text \<open>O: Fingertips and thumb form circle.\<close>

definition rule_O :: rule where
  "rule_O landmarks = and_chain
     [with2 landmarks 4 8 (\<lambda>a b. get_distance a b < 0.08)]"

text \<open>P: Index pointing down, thumb to side.\<close>

definition rule_P :: rule where
  "rule_P landmarks = and_chain
     [not_expr (is_finger_closed landmarks 1),
      is_finger_closed landmarks 2,
      is_finger_closed landmarks 3,
      is_finger_closed landmarks 4,
      with2 landmarks 8 5 (\<lambda>a b. y a > y b)]"

text \<open>Q: Finger pointing down, thumb and pinky out.\<close>

definition rule_Q :: rule where
  "rule_Q landmarks = and_chain
     [not_expr (is_finger_closed landmarks 1),
      is_finger_closed landmarks 2,
      is_finger_closed landmarks 3,
      not_expr (is_finger_closed landmarks 4),
      with2 landmarks 8 5 (\<lambda>a b. y a > y b)]"

text \<open>R: Crossed index and middle fingers.\<close>

definition rule_R :: rule where
  "rule_R landmarks = and_chain
     [not_expr (is_finger_closed landmarks 1),
      not_expr (is_finger_closed landmarks 2),
      is_finger_closed landmarks 3,
      is_finger_closed landmarks 4,
      with2 landmarks 8 12 (\<lambda>a b. get_distance a b < 0.1)]"

text \<open>S: Fist with thumb over fingers.\<close>

definition rule_S :: rule where
  "rule_S landmarks = and_chain
     [is_finger_closed landmarks 1,
      is_finger_closed landmarks 2,
      is_finger_closed landmarks 3,
      is_finger_closed landmarks 4,
      with2 landmarks 4 8 (\<lambda>a b. z a < z b)]"

text \<open>T: Thumb between index and middle finger.\<close>

definition rule_T :: rule where
  "rule_T landmarks = and_chain
     [is_finger_closed landmarks 1,
      is_finger_closed landmarks 2,
      is_finger_closed landmarks 3,
      is_finger_closed landmarks 4,
      with2 landmarks 4 6 (\<lambda>a b. x a > x b),
      with2 landmarks 4 10 (\<lambda>a b. x a < x b)]"

text \<open>U: Index and middle finger extended together.\<close>

definition rule_U :: rule where
  "rule_U landmarks = and_chain
     [not_expr (is_finger_closed landmarks 1),
      not_expr (is_finger_closed landmarks 2),
      is_finger_closed landmarks 3,
      is_finger_closed landmarks 4,
      with2 landmarks 8 12 (\<lambda>a b. get_distance a b < 0.15)]"

text \<open>V: Index and middle finger in V shape.\<close>

definition rule_V :: rule where
  "rule_V landmarks = and_chain
     [not_expr (is_finger_closed landmarks 1),
      not_expr (is_finger_closed landmarks 2),
      is_finger_closed landmarks 3,
      is_finger_closed landmarks 4,
      with2 landmarks 8 12 (\<lambda>a b. get_distance a b > 0.15)]"

text \<open>W: Index, middle, and ring fingers extended.\<close>

definition rule_W :: rule where
  "rule_W landmarks = and_chain
     [not_expr (is_finger_closed landmarks 1),
      not_expr (is_finger_closed landmarks 2),
      not_expr (is_finger_closed landmarks 3),
      is_finger_closed landmarks 4]"

text \<open>X: Index finger bent at middle joint.\<close>

definition rule_X :: rule where
  "rule_X landmarks = and_chain
     [with2 landmarks 8 7 (\<lambda>a b. y a > y b),
      with2 landmarks 7 6 (\<lambda>a b. y a < y b),
      is_finger_closed landmarks 2,
      is_finger_closed landmarks 3,
      is_finger_closed landmarks 4]"

text \<open>Y: Thumb and pinky extended, others closed.\<close>

definition rule_Y :: rule where
  "rule_Y landmarks = and_chain
     [is_finger_closed landmarks 1,
      is_finger_closed landmarks 2,
      is_finger_closed landmarks 3,
      not_expr (is_finger_closed landmarks 4),
      not_expr (is_finger_closed landmarks 0)]"

text \<open>Z: Index finger traces Z shape - simplified as extended index.\<close>

definition rule_Z :: rule where
  "rule_Z landmarks = and_chain
     [not_expr (is_finger_closed landmarks 1),
      is_finger_closed landmarks 2,
      is_finger_closed landmarks 3,
      is_finger_closed landmarks 4,
      with2 landmarks 8 5 (\<lambda>a b. y a > y b)]"

text \<open>
  The dictionary \<open>self.rules\<close>, as the list of its items in insertion order (the order
  in which \<open>self.rules.items()\<close> yields them): keys 0 to 25 for the letters A to Z.
\<close>

definition rules :: "(nat \<times> rule) list" where
  "rules =
     [(0, rule_A), (1, rule_B), (2, rule_C), (3, rule_D), (4, rule_E),
      (5, rule_F), (6, rule_G), (7, rule_H), (8, rule_I), (9, rule_J),
      (10, rule_K), (11, rule_L), (12, rule_M), (13, rule_N), (14, rule_O),
      (15, rule_P), (16, rule_Q), (17, rule_R), (18, rule_S), (19, rule_T),
      (20, rule_U), (21, rule_V), (22, rule_W), (23, rule_X), (24, rule_Y),
      (25, rule_Z)]"

subsection \<open>The confidence scorer\<close>

text \<open>
  The counting loops of the B and W branches:
  \<open>for i in range(lo, hi): if not self._is_finger_closed(landmarks, i): extended_fingers += 1\<close>,
  over the finger indices given as a list. An exception of the test leaves the loop.
\<close>

fun count_extended :: "landmark list \<Rightarrow> nat list \<Rightarrow> nat \<Rightarrow> error + nat" where
  "count_extended landmarks [] extended_fingers = Inr extended_fingers"
| "count_extended landmarks (i # rest) extended_fingers =
     bind (not_expr (is_finger_closed landmarks i)) (\<lambda>b.
       count_extended landmarks rest (if b then extended_fingers + 1 else extended_fingers))"

text \<open>
  The \<open>if\<close>/\<open>elif\<close> chain on \<open>gesture_id\<close>: the letter-specific adjustment of the
  confidence. None of it is inside a \<open>try\<close> of the scorer, so its exceptions leave the scorer.
\<close>

definition letter_adjust :: "landmark list \<Rightarrow> nat \<Rightarrow> real \<Rightarrow> error + real" where
  "letter_adjust landmarks gesture_id confidence =
     (if gesture_id = 0 then
        bind (with2 landmarks 4 3 (\<lambda>l4 l3. y l4 < y l3 - 0.1)) (\<lambda>b.
          Inr (if b then confidence + 0.15 else confidence))
      else if gesture_id = 1 then
        bind (count_extended landmarks [1, 2, 3, 4] 0) (\<lambda>extended_fingers.
          Inr (if extended_fingers = 4 then confidence + 0.15 else confidence - 0.3))
      else if gesture_id = 2 then
        bind (with2 landmarks 4 8 (\<lambda>a b. 0.05 < get_distance a b \<and> get_distance a b < 0.15)) (\<lambda>b.
          Inr (if b then confidence + 0.15 else confidence))
      else if gesture_id = 3 then
        bind (and_chain [not_expr (is_finger_closed landmarks 1), is_finger_closed landmarks 2]) (\<lambda>b.
          Inr (if b then confidence + 0.15 else confidence))
      else if gesture_id = 11 then
        bind (and_chain [not_expr (is_finger_closed landmarks 1),
                         with2 landmarks 4 3 (\<lambda>a b. x a > x b)]) (\<lambda>b.
          Inr (if b then confidence + 0.15 else confidence))
      else if gesture_id = 14 then
        bind (with2 landmarks 4 8 (\<lambda>a b. 0.05 < get_distance a b \<and> get_distance a b < 0.1)) (\<lambda>b.
          Inr (if b then confidence + 0.15 else confidence))
      else if gesture_id = 21 then
        bind (and_chain [not_expr (is_finger_closed landmarks 1),
                         not_expr (is_finger_closed landmarks 2)]) (\<lambda>b.
          if b then
            bind (with2 landmarks 8 12 (\<lambda>a b. get_distance a b > 0.2)) (\<lambda>b'.
              Inr (if b' then confidence + 0.15 else confidence))
          else Inr confidence)
      else if gesture_id = 22 then
        bind (count_extended landmarks [1, 2, 3] 0) (\<lambda>extended_fingers.
          Inr (if extended_fingers = 3 then confidence + 0.15 else confidence))
      else if gesture_id = 24 then
        bind (and_chain [not_expr (is_finger_closed landmarks 4),
                         not_expr (is_finger_closed landmarks 0)]) (\<lambda>b.
          Inr (if b then confidence + 0.15 else confidence))
      else Inr confidence)"

text \<open>
  The loop over \<open>self.rules.items()\<close> that penalises ambiguous hand positions. The call
  of the other rule is inside \<open>try: ... except Exception: pass\<close>: a rule that raises
  leaves the confidence as it is, and the loop goes on.
\<close>

fun penalise :: "landmark list \<Rightarrow> nat \<Rightarrow> (nat \<times> rule) list \<Rightarrow> real \<Rightarrow> real" where
  "penalise landmarks gesture_id [] confidence = confidence"
| "penalise landmarks gesture_id ((other_id, rule_func) # rest) confidence =
     penalise landmarks gesture_id rest
       (if other_id \<noteq> gesture_id then
          (case rule_func landmarks of
             Inr True \<Rightarrow> confidence - 0.1
           | Inr False \<Rightarrow> confidence
           | Inl e \<Rightarrow> confidence)
        else confidence)"

text \<open>
  The scorer, over the items of a rule dictionary. The test for a centred hand reads
  \<open>landmarks[0]\<close> outside any \<open>try\<close>.
\<close>

definition confidence_over :: "(nat \<times> rule) list \<Rightarrow> landmark list \<Rightarrow> nat \<Rightarrow> error + real" where
  "confidence_over items landmarks gesture_id =
     bind (letter_adjust landmarks gesture_id 0.75) (\<lambda>confidence.
       let confidence = penalise landmarks gesture_id items confidence in
       bind (item landmarks 0) (\<lambda>l0.
         let confidence =
               (if 0.2 < x l0 \<and> x l0 < 0.8 \<and> 0.2 < y l0 \<and> y l0 < 0.8
                then confidence + 0.05 else confidence)
         in Inr (max 0.0 (min confidence 1.0))))"

definition get_gesture_confidence :: "landmark list \<Rightarrow> nat \<Rightarrow> error + real" where
  "get_gesture_confidence landmarks gesture_id = confidence_over rules landmarks gesture_id"

subsection \<open>The selector\<close>

text \<open>
  One round of the loop of \<open>_recognize_gesture\<close> on the pair
  \<open>(best_gesture, best_confidence)\<close>. The whole round is inside
  \<open>try: ... except Exception\<close>, which logs and goes on: an exception of the rule or of
  the scorer leaves the pair as it is.
\<close>

definition recognize_step ::
  "(nat \<times> rule) list \<Rightarrow> landmark list \<Rightarrow> nat option \<times> real \<Rightarrow> nat \<times> rule \<Rightarrow> nat option \<times> real" where
  "recognize_step items landmarks best entry =
     (case entry of (gesture_id, rule_func) \<Rightarrow>
        (case rule_func landmarks of
           Inl e \<Rightarrow> best
         | Inr False \<Rightarrow> best
         | Inr True \<Rightarrow>
             (case confidence_over items landmarks gesture_id of
                Inl e \<Rightarrow> best
              | Inr confidence \<Rightarrow>
                  if confidence > snd best then (Some gesture_id, confidence) else best)))"

text \<open>
  The selector over the items of a rule dictionary, in the order of the list: both loops
  over \<open>self.rules.items()\<close> (the selector's and the scorer's) run in this order.
  The result is the pair \<open>(gesture_id, confidence)\<close>, with \<open>None\<close> for no gesture.
\<close>

definition recognize_over :: "(nat \<times> rule) list \<Rightarrow> landmark list \<Rightarrow> nat option \<times> real" where
  "recognize_over items landmarks =
     (let best = foldl (recognize_step items landmarks) (None, 0.0) items in
      if snd best > 0.7 then best else (None, 0.0))"

definition recognize_gesture :: "landmark list \<Rightarrow> nat option \<times> real" where
  "recognize_gesture landmarks = recognize_over rules landmarks"

text \<open>
  The acceptance test of \<open>process_frame\<close> on the selector's result:
  \<open>gesture_id is not None and confidence > 0.6\<close>.
\<close>

definition gesture_detected :: "nat option \<times> real \<Rightarrow> bool" where
  "gesture_detected r = (case r of (gesture_id, confidence) \<Rightarrow> gesture_id \<noteq> None \<and> confidence > 0.6)"

subsection \<open>Notions used to state the properties\<close>

text \<open>
  The value of \<open>_is_finger_closed\<close> on a hand that has every landmark the test reads.
\<close>

definition finger_closed :: "landmark list \<Rightarrow> nat \<Rightarrow> bool" where
  "finger_closed landmarks finger_idx =
     (if finger_idx = 0 then y (landmarks ! 3) > y (landmarks ! 4)
      else get_distance (landmarks ! (finger_idx * 4 + 1)) (landmarks ! (finger_idx * 4 + 3))
             < (get_distance (landmarks ! (finger_idx * 4 + 1)) (landmarks ! (finger_idx * 4 + 2)) +
                get_distance (landmarks ! (finger_idx * 4 + 2)) (landmarks ! (finger_idx * 4 + 3))) * 0.7)"

text \<open>
  The rule of a letter matches: \<open>self.rules[gesture_id](landmarks)\<close> returns \<open>True\<close>
  (it neither returns \<open>False\<close> nor raises).
\<close>

definition matches :: "landmark list \<Rightarrow> nat \<Rightarrow> bool" where
  "matches landmarks gesture_id =
     (case map_of rules gesture_id of
        None \<Rightarrow> False
      | Some rule_func \<Rightarrow> rule_func landmarks = Inr True)"

text \<open>
  The candidate that an entry of the rule dictionary contributes to the selector's
  search: the confidence of its letter when its rule matches and the scorer returns,
  nothing when the rule is false or the rule or the scorer raises.
\<close>

definition candidate :: "(nat \<times> rule) list \<Rightarrow> landmark list \<Rightarrow> nat \<times> rule \<Rightarrow> real option" where
  "candidate items landmarks entry =
     (case snd entry landmarks of
        Inr True \<Rightarrow>
          (case confidence_over items landmarks (fst entry) of
             Inr confidence \<Rightarrow> Some confidence
           | Inl e \<Rightarrow> None)
      | Inr False \<Rightarrow> None
      | Inl e \<Rightarrow> None)"

text \<open>
  The scorer as the specification words it, for a hand of 21 landmarks: the letters
  with a reinforcement, the extra geometric check of each of them, the number of other
  letters whose rule matches, the test for a centred wrist, and the confidence: the base
  score 0.75 plus the reinforcement, 0.1 subtracted once for each other matching letter,
  the centring bonus added, the result clamped to the interval from 0 to 1.
\<close>

definition reinforced_letters :: "nat list" where
  "reinforced_letters = [0, 1, 2, 3, 11, 14, 21, 22, 24]"

definition extra_check :: "landmark list \<Rightarrow> nat \<Rightarrow> bool" where
  "extra_check landmarks gesture_id =
     (if gesture_id = 0 then y (landmarks ! 4) < y (landmarks ! 3) - 0.1
      else if gesture_id = 1 then
        list_all (\<lambda>i. \<not> finger_closed landmarks i) [1, 2, 3, 4]
      else if gesture_id = 2 then
        0.05 < get_distance (landmarks ! 4) (landmarks ! 8) \<and>
        get_distance (landmarks ! 4) (landmarks ! 8) < 0.15
      else if gesture_id = 3 then \<not> finger_closed landmarks 1 \<and> finger_closed landmarks 2
      else if gesture_id = 11 then \<not> finger_closed landmarks 1 \<and> x (landmarks ! 4) > x (landmarks ! 3)
      else if gesture_id = 14 then
        0.05 < get_distance (landmarks ! 4) (landmarks ! 8) \<and>
        get_distance (landmarks ! 4) (landmarks ! 8) < 0.1
      else if gesture_id = 21 then
        \<not> finger_closed landmarks 1 \<and> \<not> finger_closed landmarks 2 \<and>
        get_distance (landmarks ! 8) (landmarks ! 12) > 0.2
      else if gesture_id = 22 then
        list_all (\<lambda>i. \<not> finger_closed landmarks i) [1, 2, 3]
      else if gesture_id = 24 then \<not> finger_closed landmarks 4 \<and> \<not> finger_closed landmarks 0
      else False)"

definition reinforcement :: "landmark list \<Rightarrow> nat \<Rightarrow> real" where
  "reinforcement landmarks gesture_id =
     (if gesture_id \<in> set reinforced_letters then
        (if extra_check landmarks gesture_id then 0.15
         else if gesture_id = 1 then - 0.3
         else 0)
      else 0)"


definition centred :: "landmark list \<Rightarrow> bool" where
  "centred landmarks =
     (0.2 < x (landmarks ! 0) \<and> x (landmarks ! 0) < 0.8 \<and>
      0.2 < y (landmarks ! 0) \<and> y (landmarks ! 0) < 0.8)"


text \<open>
  The letters whose rule matches and to which the scorer gives a certain confidence, in
  the order A to Z.
\<close>

definition best_letters :: "landmark list \<Rightarrow> real \<Rightarrow> nat list" where
  "best_letters landmarks confidence =
     filter (\<lambda>gesture_id. matches landmarks gesture_id \<and>
                          get_gesture_confidence landmarks gesture_id = Inr confidence) [0..<26]"

subsection \<open>Hands used as examples\<close>

abbreviation pt :: "real \<Rightarrow> real \<Rightarrow> real \<Rightarrow> landmark" where
  "pt a b c \<equiv> \<lparr>x = a, y = b, z = c\<rparr>"

text \<open>
  An upright hand with the index finger straight and pointing up, the other three
  fingers folded back onto their base, the thumb tip above and to the right of the
  thumb joint, and the wrist at the left edge of the frame.
\<close>

definition hand_index_up :: "landmark list" where
  "hand_index_up =
     [pt 0.125 0.5 0,
      pt 0.5 0.5 0, pt 0.5 0.5 0, pt 0.375 0.625 0, pt 0.5 0.5 0,
      pt 0.5 0.5 0, pt 0.5 0.375 0, pt 0.5 0.25 0, pt 0.5 0.125 0,
      pt 0.5 0.5 0, pt 0.5 0.375 0, pt 0.5 0.5 0, pt 0.5 0.5 0,
      pt 0.5 0.5 0, pt 0.5 0.375 0, pt 0.5 0.5 0, pt 0.5 0.5 0,
      pt 0.5 0.5 0, pt 0.5 0.375 0, pt 0.5 0.5 0, pt 0.5 0.5 0]"

text \<open>
  A fist: the four fingers folded back onto their base, the thumb tip higher in the
  image than the thumb joint (a smaller y) and to the right of the fingers, the wrist at
  the left edge of the frame.
\<close>

definition hand_fist :: "landmark list" where
  "hand_fist =
     [pt 0.125 0.5 0,
      pt 0.5 0.5 0, pt 0.5 0.5 0, pt 0.25 0.625 0, pt 0.75 0.5 0,
      pt 0.5 0.5 0, pt 0.5 0.375 0, pt 0.5 0.5 0, pt 0.5 0.5 0,
      pt 0.5 0.5 0, pt 0.5 0.375 0, pt 0.5 0.5 0, pt 0.5 0.5 0,
      pt 0.5 0.5 0, pt 0.5 0.375 0, pt 0.5 0.5 0, pt 0.5 0.5 0,
      pt 0.5 0.5 0, pt 0.5 0.375 0, pt 0.5 0.5 0, pt 0.5 0.5 0]"


text \<open>The degenerate hand: all 21 landmarks at the same point.\<close>

definition same_point_hand :: "landmark \<Rightarrow> landmark list" where
  "same_point_hand p = replicate 21 p"

text \<open>The rule dictionary with the entry of L moved in front of the entry of D.\<close>

definition rules_L_first :: "(nat \<times> rule) list" where
  "rules_L_first =
     [(0, rule_A), (1, rule_B), (2, rule_C), (11, rule_L), (3, rule_D), (4, rule_E),
      (5, rule_F), (6, rule_G), (7, rule_H), (8, rule_I), (9, rule_J),
      (10, rule_K), (12, rule_M), (13, rule_N), (14, rule_O),
      (15, rule_P), (16, rule_Q), (17, rule_R), (18, rule_S), (19, rule_T),
      (20, rule_U), (21, rule_V), (22, rule_W), (23, rule_X), (24, rule_Y),
      (25, rule_Z)]"

section \<open>Properties\<close>

subsection \<open>Evaluation on a hand that has the landmarks\<close>

lemma item_ok: "i < length lms \<Longrightarrow> item lms i = Inr (lms ! i)"
  by (simp add: item_def)

lemma with2_ok:
  "i < length lms \<Longrightarrow> j < length lms \<Longrightarrow> with2 lms i j f = Inr (f (lms ! i) (lms ! j))"
  by (simp add: with2_def item_def bind_def)

lemma bind_Inr: "bind (Inr v) f = f v"
  by (simp add: bind_def)


lemma not_expr_Inr: "not_expr (Inr b) = Inr (\<not> b)"
  by (simp add: not_expr_def bind_def)


lemma and_chain_Inr: "and_chain (Inr b # es) = (if b then and_chain es else Inr False)"
  by simp

lemma and_chain_Inl: "and_chain (Inl e # es) = Inl e"
  by simp

lemma is_finger_closed_ok:
  "finger_idx * 4 + 3 < length lms \<Longrightarrow> 4 < length lms \<Longrightarrow>
   is_finger_closed lms finger_idx = Inr (finger_closed lms finger_idx)"
  by (simp add: is_finger_closed_def finger_closed_def with2_ok bind_Inr Let_def)

lemma is_finger_closed_21:
  "length lms = 21 \<Longrightarrow> finger_idx \<le> 4 \<Longrightarrow>
   is_finger_closed lms finger_idx = Inr (finger_closed lms finger_idx)"
  by (rule is_finger_closed_ok) simp_all

lemma length_same_point_hand: "length (same_point_hand p) = 21"
  by (simp add: same_point_hand_def)

lemma length_hand_index_up: "length hand_index_up = 21"
  by (simp add: hand_index_up_def)

lemma finger_closed_same_point:
  "finger_idx \<le> 4 \<Longrightarrow> \<not> finger_closed (same_point_hand p) finger_idx"
  by (simp add: finger_closed_def same_point_hand_def get_distance_def)

lemma finger_closed_hand_index_up:
  "finger_closed hand_index_up 0" "\<not> finger_closed hand_index_up 1"
  "finger_closed hand_index_up 2" "finger_closed hand_index_up 3"
  "finger_closed hand_index_up 4"
  by (simp_all add: finger_closed_def hand_index_up_def get_distance_def)

subsection \<open>The finger-closed predicate\<close>

text \<open>
  C2. The specification has the thumb closed exactly when the tip (landmark 4) has a
  greater y than the joint (landmark 3). The code compares the other way round: on the
  hand below the thumb tip is above the joint (its y is smaller), and the predicate
  returns true.
\<close>

theorem thumb_closed_when_tip_above_joint:
  "y (hand_index_up ! 4) < y (hand_index_up ! 3) \<and> is_finger_closed hand_index_up 0 = Inr True"
  by (simp add: is_finger_closed_21 length_hand_index_up finger_closed_hand_index_up)
     (simp add: hand_index_up_def)

text \<open>On every hand of 21 landmarks the thumb is closed exactly when the tip is above the joint.\<close>

lemma thumb_closed_value:
  "length lms = 21 \<Longrightarrow> is_finger_closed lms 0 = Inr (y (lms ! 4) < y (lms ! 3))"
  by (simp add: is_finger_closed_21 finger_closed_def)

text \<open>
  C6, as the specification states it, fails: on the hand with all 21 landmarks at the
  origin the predicate is false for each of the five fingers, and rule E does not match.
\<close>

theorem same_point_hand_origin_not_closed:
  "is_finger_closed (same_point_hand (pt 0 0 0)) 0 = Inr False \<and>
   is_finger_closed (same_point_hand (pt 0 0 0)) 1 = Inr False \<and>
   is_finger_closed (same_point_hand (pt 0 0 0)) 2 = Inr False \<and>
   is_finger_closed (same_point_hand (pt 0 0 0)) 3 = Inr False \<and>
   is_finger_closed (same_point_hand (pt 0 0 0)) 4 = Inr False \<and>
   rule_E (same_point_hand (pt 0 0 0)) = Inr False"
  by (simp add: rule_E_def is_finger_closed_21 length_same_point_hand finger_closed_same_point)

text \<open>
  C6, amended. On the degenerate hand with all 21 landmarks at one point, the predicate
  is false for every finger index from 0 to 4 (the distances are all 0 and \<open>0 < 0\<close>
  is false; the two thumb landmarks have the same y), so rule E does not match; rule B
  (all four fingers extended) does.
\<close>

theorem same_point_hand_all_open:
  "is_finger_closed (same_point_hand p) 0 = Inr False \<and>
   is_finger_closed (same_point_hand p) 1 = Inr False \<and>
   is_finger_closed (same_point_hand p) 2 = Inr False \<and>
   is_finger_closed (same_point_hand p) 3 = Inr False \<and>
   is_finger_closed (same_point_hand p) 4 = Inr False \<and>
   rule_E (same_point_hand p) = Inr False \<and>
   rule_B (same_point_hand p) = Inr True"
  by (simp add: rule_E_def rule_B_def not_expr_Inr is_finger_closed_21 length_same_point_hand
      finger_closed_same_point)

subsection \<open>The selector's search\<close>

lemma recognize_step_candidate:
  "recognize_step items lms best entry =
     (case candidate items lms entry of
        None \<Rightarrow> best
      | Some c \<Rightarrow> if c > snd best then (Some (fst entry), c) else best)"
  by (cases entry) (auto simp: recognize_step_def candidate_def split: sum.splits bool.splits)

lemma recognize_step_cases:
  assumes "recognize_step items lms (bg', bc') e = (bg, bc)"
  shows "(candidate items lms e = None \<and> bg = bg' \<and> bc = bc') \<or>
         (\<exists>c. candidate items lms e = Some c \<and> c \<le> bc' \<and> bg = bg' \<and> bc = bc') \<or>
         (\<exists>c. candidate items lms e = Some c \<and> bc' < c \<and> bg = Some (fst e) \<and> bc = c)"
proof (cases "candidate items lms e")
  case None
  with assms show ?thesis by (simp add: recognize_step_candidate)
next
  case (Some c)
  with assms show ?thesis by (cases "bc' < c") (simp_all add: recognize_step_candidate)
qed

lemma foldl_snoc_step:
  assumes "foldl (recognize_step items lms) s (es @ [e]) = (bg, bc)"
  obtains bg' bc' where "foldl (recognize_step items lms) s es = (bg', bc')"
    and "recognize_step items lms (bg', bc') e = (bg, bc)"
proof -
  obtain bg' bc' where p: "foldl (recognize_step items lms) s es = (bg', bc')"
    by (cases "foldl (recognize_step items lms) s es") auto
  with assms have "recognize_step items lms (bg', bc') e = (bg, bc)" by simp
  with p that show thesis by blast
qed

lemma scan_upper:
  "foldl (recognize_step items lms) (None, 0) es = (bg, bc) \<Longrightarrow>
     0 \<le> bc \<and> (\<forall>e\<in>set es. \<forall>c. candidate items lms e = Some c \<longrightarrow> c \<le> bc)"
proof (induction es arbitrary: bg bc rule: rev_induct)
  case Nil
  then show ?case by simp
next
  case (snoc e es)
  from snoc.prems obtain bg' bc'
    where prev: "foldl (recognize_step items lms) (None, 0) es = (bg', bc')"
      and step: "recognize_step items lms (bg', bc') e = (bg, bc)"
    by (rule foldl_snoc_step)
  from snoc.IH [OF prev]
  have ih: "0 \<le> bc'" "\<And>a c. a \<in> set es \<Longrightarrow> candidate items lms a = Some c \<Longrightarrow> c \<le> bc'"
    by blast+
  from recognize_step_cases [OF step] have mono: "bc' \<le> bc"
    and new: "\<And>c. candidate items lms e = Some c \<Longrightarrow> c \<le> bc"
    by auto
  have "0 \<le> bc" using ih(1) mono by simp
  moreover have "\<forall>a\<in>set (es @ [e]). \<forall>c. candidate items lms a = Some c \<longrightarrow> c \<le> bc"
  proof (intro ballI allI impI)
    fix a c assume a: "a \<in> set (es @ [e])" and c: "candidate items lms a = Some c"
    show "c \<le> bc"
    proof (cases "a = e")
      case True
      with c new show ?thesis by simp
    next
      case False
      with a have "a \<in> set es" by simp
      from ih(2) [OF this c] mono show ?thesis by simp
    qed
  qed
  ultimately show ?case by simp
qed

lemma scan_none:
  "foldl (recognize_step items lms) (None, 0) es = (None, bc) \<Longrightarrow> bc = 0"
proof (induction es arbitrary: bc rule: rev_induct)
  case Nil
  then show ?case by simp
next
  case (snoc e es)
  from snoc.prems obtain bg' bc'
    where prev: "foldl (recognize_step items lms) (None, 0) es = (bg', bc')"
      and step: "recognize_step items lms (bg', bc') e = (None, bc)"
    by (rule foldl_snoc_step)
  from recognize_step_cases [OF step] have "bg' = None" "bc = bc'" by auto
  with prev snoc.IH show ?case by simp
qed

lemma first_best_snoc:
  assumes "i < length es" and "P (es ! i)" and "\<forall>j<i. Q (es ! j)"
  shows "\<exists>i<length (es @ [e]). P ((es @ [e]) ! i) \<and> (\<forall>j<i. Q ((es @ [e]) ! j))"
proof (intro exI [of _ i] conjI allI impI)
  show "i < length (es @ [e])" using assms(1) by simp
  show "P ((es @ [e]) ! i)" using assms(1,2) by (simp add: nth_append)
  fix j assume "j < i"
  with assms(1,3) show "Q ((es @ [e]) ! j)" by (simp add: nth_append)
qed

lemma scan_some:
  "foldl (recognize_step items lms) (None, 0) es = (Some g, bc) \<Longrightarrow>
     0 < bc \<and>
     (\<exists>i<length es. (fst (es ! i) = g \<and> candidate items lms (es ! i) = Some bc) \<and>
        (\<forall>j<i. \<forall>c. candidate items lms (es ! j) = Some c \<longrightarrow> c < bc))"
proof (induction es arbitrary: g bc rule: rev_induct)
  case Nil
  then show ?case by simp
next
  case (snoc e es)
  from snoc.prems obtain bg' bc'
    where prev: "foldl (recognize_step items lms) (None, 0) es = (bg', bc')"
      and step: "recognize_step items lms (bg', bc') e = (Some g, bc)"
    by (rule foldl_snoc_step)
  from scan_upper [OF prev]
  have up: "0 \<le> bc'" "\<And>a c. a \<in> set es \<Longrightarrow> candidate items lms a = Some c \<Longrightarrow> c \<le> bc'"
    by blast+
  from recognize_step_cases [OF step]
  consider (keep) "bg' = Some g" "bc = bc'"
    | (new) "candidate items lms e = Some bc" "bc' < bc" "g = fst e"
    by auto
  then show ?case
  proof cases
    case keep
    with prev snoc.IH [of g bc']
    obtain i where i: "i < length es"
      "fst (es ! i) = g \<and> candidate items lms (es ! i) = Some bc'"
      "\<forall>j<i. \<forall>c. candidate items lms (es ! j) = Some c \<longrightarrow> c < bc'"
      and pos: "0 < bc'"
      by blast
    from first_best_snoc [of i es "\<lambda>a. fst a = g \<and> candidate items lms a = Some bc'"
        "\<lambda>a. \<forall>c. candidate items lms a = Some c \<longrightarrow> c < bc'" e, OF i]
    show ?thesis using keep(2) pos by simp
  next
    case new
    have "\<forall>j<length es. \<forall>c. candidate items lms ((es @ [e]) ! j) = Some c \<longrightarrow> c < bc"
    proof (intro allI impI)
      fix j c assume j: "j < length es" and c: "candidate items lms ((es @ [e]) ! j) = Some c"
      from j c have "candidate items lms (es ! j) = Some c" by (simp add: nth_append)
      moreover from j have "es ! j \<in> set es" by simp
      ultimately have "c \<le> bc'" using up(2) by blast
      with new(2) show "c < bc" by simp
    qed
    moreover have "fst ((es @ [e]) ! length es) = g \<and>
        candidate items lms ((es @ [e]) ! length es) = Some bc"
      using new by simp
    moreover have "length es < length (es @ [e])" by simp
    ultimately have "\<exists>i<length (es @ [e]).
        (fst ((es @ [e]) ! i) = g \<and> candidate items lms ((es @ [e]) ! i) = Some bc) \<and>
        (\<forall>j<i. \<forall>c. candidate items lms ((es @ [e]) ! j) = Some c \<longrightarrow> c < bc)"
      by blast
    moreover from up(1) new(2) have "0 < bc" by simp
    ultimately show ?thesis by simp
  qed
qed

lemma recognize_over_Some:
  assumes "recognize_over items lms = (Some g, c)"
  shows "0.7 < c \<and>
     (\<forall>e\<in>set items. \<forall>c'. candidate items lms e = Some c' \<longrightarrow> c' \<le> c) \<and>
     (\<exists>i<length items. (fst (items ! i) = g \<and> candidate items lms (items ! i) = Some c) \<and>
        (\<forall>j<i. \<forall>c'. candidate items lms (items ! j) = Some c' \<longrightarrow> c' < c))"
proof -
  obtain bg bc where best: "foldl (recognize_step items lms) (None, 0) items = (bg, bc)"
    by (cases "foldl (recognize_step items lms) (None, 0) items") auto
  from assms best have "bc > 0.7 \<and> bg = Some g \<and> bc = c"
    by (cases "bc > 0.7") (simp_all add: recognize_over_def)
  then have *: "bc > 0.7" "bg = Some g" "bc = c" by simp_all
  from best * have b: "foldl (recognize_step items lms) (None, 0) items = (Some g, c)" by simp
  from scan_upper [OF b] scan_some [OF b] * show ?thesis by simp
qed

lemma recognize_over_None:
  assumes "fst (recognize_over items lms) = None"
  shows "recognize_over items lms = (None, 0) \<and>
     (\<forall>e\<in>set items. \<forall>c'. candidate items lms e = Some c' \<longrightarrow> c' \<le> 0.7)"
proof -
  obtain bg bc where best: "foldl (recognize_step items lms) (None, 0) items = (bg, bc)"
    by (cases "foldl (recognize_step items lms) (None, 0) items") auto
  from scan_upper [OF best]
  have up: "\<And>a c. a \<in> set items \<Longrightarrow> candidate items lms a = Some c \<Longrightarrow> c \<le> bc"
    by blast
  show ?thesis
  proof (cases "bc > 0.7")
    case True
    with assms best have "bg = None" by (simp add: recognize_over_def)
    with best scan_none have "bc = 0" by blast
    with True show ?thesis by simp
  next
    case False
    with best have r: "recognize_over items lms = (None, 0)" by (simp add: recognize_over_def)
    have "\<forall>e\<in>set items. \<forall>c'. candidate items lms e = Some c' \<longrightarrow> c' \<le> 0.7"
    proof (intro ballI allI impI)
      fix e c' assume "e \<in> set items" "candidate items lms e = Some c'"
      from up [OF this] False show "c' \<le> 0.7" by simp
    qed
    with r show ?thesis by simp
  qed
qed

lemma recognize_over_cases:
  "(\<exists>g c. recognize_over items lms = (Some g, c)) \<or> recognize_over items lms = (None, 0)"
proof (cases "fst (recognize_over items lms)")
  case None
  with recognize_over_None show ?thesis by blast
next
  case (Some g)
  then have "recognize_over items lms = (Some g, snd (recognize_over items lms))"
    by (cases "recognize_over items lms") simp
  then show ?thesis by blast
qed

subsection \<open>The rule dictionary\<close>

lemma rules_keys: "map fst rules = [0..<26]"
  by (simp add: rules_def upt_conv_Cons)

lemma length_rules: "length rules = 26"
  by (simp add: rules_def)

lemma rules_nth_key: "g < 26 \<Longrightarrow> fst (rules ! g) = g"
proof -
  assume g: "g < 26"
  then have "fst (rules ! g) = map fst rules ! g" by (simp add: length_rules)
  also have "\<dots> = g" using g by (simp only: rules_keys nth_upt)
  finally show ?thesis .
qed

lemma distinct_rules_keys: "distinct (map fst rules)"
  by (simp only: rules_keys distinct_upt)

lemma map_of_rules_nth: "g < 26 \<Longrightarrow> map_of rules g = Some (snd (rules ! g))"
proof -
  assume g: "g < 26"
  then have "rules ! g \<in> set rules" by (simp add: length_rules)
  moreover have "rules ! g = (g, snd (rules ! g))"
    using rules_nth_key [OF g] by (cases "rules ! g") simp
  ultimately have "(g, snd (rules ! g)) \<in> set rules" by simp
  with distinct_rules_keys show ?thesis by (rule_tac map_of_is_SomeI)
qed

lemma map_of_rules_None: "\<not> g < 26 \<Longrightarrow> map_of rules g = None"
proof -
  assume "\<not> g < 26"
  then have "g \<notin> set (map fst rules)" by (simp only: rules_keys) simp
  then show ?thesis by (simp add: map_of_eq_None_iff)
qed

lemma matches_iff: "matches lms g \<longleftrightarrow> g < 26 \<and> snd (rules ! g) lms = Inr True"
  by (cases "g < 26") (simp_all add: matches_def map_of_rules_nth map_of_rules_None)

lemma candidate_rules_nth:
  "g < 26 \<Longrightarrow> candidate rules lms (rules ! g) = Some c \<longleftrightarrow>
     matches lms g \<and> get_gesture_confidence lms g = Inr c"
  by (auto simp: candidate_def matches_iff rules_nth_key get_gesture_confidence_def
      split: sum.splits bool.splits)

subsection \<open>Evaluation on the example hands\<close>

lemmas rule_defs =
  rule_A_def rule_B_def rule_C_def rule_D_def rule_E_def rule_F_def rule_G_def
  rule_H_def rule_I_def rule_J_def rule_K_def rule_L_def rule_M_def rule_N_def
  rule_O_def rule_P_def rule_Q_def rule_R_def rule_S_def rule_T_def rule_U_def
  rule_V_def rule_W_def rule_X_def rule_Y_def rule_Z_def

lemma is_finger_closed_hand_index_up:
  "is_finger_closed hand_index_up 0 = Inr True"
  "is_finger_closed hand_index_up 1 = Inr False"
  "is_finger_closed hand_index_up 2 = Inr True"
  "is_finger_closed hand_index_up 3 = Inr True"
  "is_finger_closed hand_index_up 4 = Inr True"
  "is_finger_closed hand_index_up (Suc 0) = Inr False"
  using finger_closed_hand_index_up
  by (simp_all add: is_finger_closed_21 length_hand_index_up)

lemma with2_hand_index_up:
  "i < 21 \<Longrightarrow> j < 21 \<Longrightarrow> with2 hand_index_up i j f = Inr (f (hand_index_up ! i) (hand_index_up ! j))"
  by (simp add: with2_ok length_hand_index_up)

lemma hand_index_up_nth:
  "hand_index_up ! 0 = pt 0.125 0.5 0"
  "hand_index_up ! 3 = pt 0.375 0.625 0"
  "hand_index_up ! 4 = pt 0.5 0.5 0"
  "hand_index_up ! 5 = pt 0.5 0.5 0"
  "hand_index_up ! 6 = pt 0.5 0.375 0"
  "hand_index_up ! 7 = pt 0.5 0.25 0"
  "hand_index_up ! 8 = pt 0.5 0.125 0"
  "hand_index_up ! 9 = pt 0.5 0.5 0"
  "hand_index_up ! 10 = pt 0.5 0.375 0"
  "hand_index_up ! 12 = pt 0.5 0.5 0"
  by (simp_all add: hand_index_up_def)

lemma rules_hand_index_up:
  "rule_A hand_index_up = Inr False" "rule_B hand_index_up = Inr False"
  "rule_C hand_index_up = Inr False" "rule_D hand_index_up = Inr True"
  "rule_E hand_index_up = Inr False" "rule_F hand_index_up = Inr False"
  "rule_G hand_index_up = Inr False" "rule_H hand_index_up = Inr False"
  "rule_I hand_index_up = Inr False" "rule_J hand_index_up = Inr False"
  "rule_K hand_index_up = Inr False" "rule_L hand_index_up = Inr True"
  "rule_M hand_index_up = Inr False" "rule_N hand_index_up = Inr False"
  "rule_O hand_index_up = Inr False" "rule_P hand_index_up = Inr False"
  "rule_Q hand_index_up = Inr False" "rule_R hand_index_up = Inr False"
  "rule_S hand_index_up = Inr False" "rule_T hand_index_up = Inr False"
  "rule_U hand_index_up = Inr False" "rule_V hand_index_up = Inr False"
  "rule_W hand_index_up = Inr False" "rule_X hand_index_up = Inr False"
  "rule_Y hand_index_up = Inr False" "rule_Z hand_index_up = Inr False"
  by (simp_all add: rule_defs is_finger_closed_hand_index_up not_expr_Inr with2_hand_index_up
      hand_index_up_nth get_distance_def)

lemma letter_adjust_hand_index_up:
  "letter_adjust hand_index_up 3 c = Inr (c + 0.15)"
  "letter_adjust hand_index_up 11 c = Inr (c + 0.15)"
  by (simp_all add: letter_adjust_def is_finger_closed_hand_index_up not_expr_Inr
      with2_hand_index_up hand_index_up_nth bind_Inr)

lemma item0_hand_index_up: "item hand_index_up 0 = Inr (pt 0.125 0.5 0)"
  by (simp add: item_ok length_hand_index_up hand_index_up_nth)

lemma confidence_hand_index_up:
  "confidence_over rules hand_index_up 3 = Inr 0.8"
  "confidence_over rules hand_index_up 11 = Inr 0.8"
  by (simp_all add: confidence_over_def letter_adjust_hand_index_up bind_Inr rules_def
      rules_hand_index_up item0_hand_index_up)

lemma confidence_L_first_hand_index_up:
  "confidence_over rules_L_first hand_index_up 3 = Inr 0.8"
  "confidence_over rules_L_first hand_index_up 11 = Inr 0.8"
  by (simp_all add: confidence_over_def letter_adjust_hand_index_up bind_Inr rules_L_first_def
      rules_hand_index_up item0_hand_index_up)

lemma scan_hand_index_up:
  assumes "confidence_over items hand_index_up 3 = Inr 0.8"
    and "confidence_over items hand_index_up 11 = Inr 0.8"
  shows "foldl (recognize_step items hand_index_up) (None, 0) rules = (Some 3, 0.8)"
    and "foldl (recognize_step items hand_index_up) (None, 0) rules_L_first = (Some 11, 0.8)"
  using assms
  by (simp_all add: recognize_step_def rules_def rules_L_first_def rules_hand_index_up)

lemma recognize_hand_index_up: "recognize_gesture hand_index_up = (Some 3, 0.8)"
  by (simp add: recognize_gesture_def recognize_over_def
      scan_hand_index_up(1) [OF confidence_hand_index_up])

lemma recognize_L_first_hand_index_up: "recognize_over rules_L_first hand_index_up = (Some 11, 0.8)"
  by (simp add: recognize_over_def scan_hand_index_up(2) [OF confidence_L_first_hand_index_up])

subsection \<open>The acceptance test of the caller\<close>

text \<open>
  C10. Whenever the selector returns a gesture, the confidence it returns is strictly
  greater than 0.7. The caller's test \<open>gesture_id is not None and confidence > 0.6\<close>
  therefore accepts every result that carries a gesture: it holds exactly when the
  selector returned a gesture, and its comparison with 0.6 never decides.
\<close>

theorem returned_gesture_above_threshold:
  "(fst (recognize_gesture landmarks) \<noteq> None \<longrightarrow> 0.7 < snd (recognize_gesture landmarks)) \<and>
   (gesture_detected (recognize_gesture landmarks) \<longleftrightarrow> fst (recognize_gesture landmarks) \<noteq> None)"
proof (cases "fst (recognize_gesture landmarks)")
  case None
  then show ?thesis by (cases "recognize_gesture landmarks") (simp add: gesture_detected_def)
next
  case (Some g)
  then have r: "recognize_over rules landmarks = (Some g, snd (recognize_gesture landmarks))"
    by (cases "recognize_gesture landmarks") (simp add: recognize_gesture_def)
  from recognize_over_Some [OF r] have "0.7 < snd (recognize_gesture landmarks)" by simp
  with Some show ?thesis
    by (cases "recognize_gesture landmarks") (simp add: gesture_detected_def)
qed

theorem returned_gesture_above_threshold_witness:
  "fst (recognize_gesture hand_index_up) \<noteq> None \<and>
   0.7 < snd (recognize_gesture hand_index_up) \<and>
   gesture_detected (recognize_gesture hand_index_up)"
  using returned_gesture_above_threshold [of hand_index_up]
  by (simp add: recognize_hand_index_up)

subsection \<open>Rules and scorer on a hand of 21 landmarks\<close>

lemma and_chain_not_isl: "(\<forall>e\<in>set es. \<not> isl e) \<Longrightarrow> isl (and_chain es) = False"
proof (induction es)
  case Nil
  then show ?case by simp
next
  case (Cons e es)
  then show ?case by (cases e) (auto split: bool.splits)
qed

lemmas and_chain_eval = and_chain_Inr and_chain_Inl

lemma rule_total_21:
  assumes "length lms = 21" and "entry \<in> set rules"
  shows "\<exists>b. snd entry lms = Inr b"
proof -
  have "\<forall>entry\<in>set rules. \<not> isl (snd entry lms)"
    unfolding rules_def
    by (simp add: rule_defs and_chain_not_isl with2_ok is_finger_closed_21 not_expr_Inr assms(1)
        del: and_chain.simps)
  with assms(2) have "\<not> isl (snd entry lms)" by blast
  then show ?thesis by (cases "snd entry lms") simp_all
qed

lemma count_extended_21:
  assumes "length lms = 21" and "\<forall>i\<in>set fingers. i \<le> 4"
  shows "count_extended lms fingers n =
           Inr (n + length (filter (\<lambda>i. \<not> finger_closed lms i) fingers))"
  using assms(2)
proof (induction fingers arbitrary: n)
  case Nil
  then show ?case by simp
next
  case (Cons i fingers)
  then show ?case
    by (simp add: is_finger_closed_21 [OF assms(1)] not_expr_Inr bind_Inr)
qed

lemma letter_adjust_21:
  assumes "length lms = 21"
  shows "letter_adjust lms g c = Inr (c + reinforcement lms g)"
proof -
  have ce: "\<And>fs. \<forall>i\<in>set fs. i \<le> 4 \<Longrightarrow>
      count_extended lms fs 0 = Inr (length (filter (\<lambda>i. \<not> finger_closed lms i) fs))"
    using count_extended_21 [OF assms] by simp
  consider "g = 0" | "g = 1" | "g = 2" | "g = 3" | "g = 11" | "g = 14" | "g = 21" | "g = 22"
    | "g = 24" | "g \<notin> set reinforced_letters"
    by (auto simp: reinforced_letters_def)
  then show ?thesis
  proof cases
    case 1
    then show ?thesis
      by (simp add: letter_adjust_def reinforcement_def reinforced_letters_def extra_check_def
          with2_ok assms bind_Inr)
  next
    case 2
    then show ?thesis
      by (simp add: letter_adjust_def reinforcement_def reinforced_letters_def extra_check_def
          ce bind_Inr del: count_extended.simps)
  next
    case 3
    then show ?thesis
      by (simp add: letter_adjust_def reinforcement_def reinforced_letters_def extra_check_def
          with2_ok assms bind_Inr)
  next
    case 4
    then show ?thesis
      by (simp add: letter_adjust_def reinforcement_def reinforced_letters_def extra_check_def
          is_finger_closed_21 assms not_expr_Inr bind_Inr and_chain_eval del: and_chain.simps(2))
  next
    case 5
    then show ?thesis
      by (simp add: letter_adjust_def reinforcement_def reinforced_letters_def extra_check_def
          is_finger_closed_21 with2_ok assms not_expr_Inr bind_Inr and_chain_eval
          del: and_chain.simps(2))
  next
    case 6
    then show ?thesis
      by (simp add: letter_adjust_def reinforcement_def reinforced_letters_def extra_check_def
          with2_ok assms bind_Inr)
  next
    case 7
    then show ?thesis
      by (simp add: letter_adjust_def reinforcement_def reinforced_letters_def extra_check_def
          is_finger_closed_21 with2_ok assms not_expr_Inr bind_Inr and_chain_eval
          del: and_chain.simps(2))
  next
    case 8
    then show ?thesis
      by (simp add: letter_adjust_def reinforcement_def reinforced_letters_def extra_check_def
          ce bind_Inr del: count_extended.simps)
  next
    case 9
    then show ?thesis
      by (simp add: letter_adjust_def reinforcement_def reinforced_letters_def extra_check_def
          is_finger_closed_21 assms not_expr_Inr bind_Inr and_chain_eval del: and_chain.simps(2))
  next
    case 10
    then show ?thesis
      by (simp add: letter_adjust_def reinforcement_def reinforced_letters_def)
  qed
qed

subsection \<open>The selector's result in terms of the matching letters\<close>

lemma candidate_matches:
  assumes "matches lms h" and "get_gesture_confidence lms h = Inr c"
  shows "h < 26" and "rules ! h \<in> set rules" and "candidate rules lms (rules ! h) = Some c"
proof -
  from assms(1) show h: "h < 26" by (simp add: matches_iff)
  then show "rules ! h \<in> set rules" by (simp add: length_rules)
  from h assms show "candidate rules lms (rules ! h) = Some c" by (simp add: candidate_rules_nth)
qed

lemma candidate_in_rules:
  assumes "e \<in> set rules" and "candidate rules lms e = Some c"
  shows "matches lms (fst e) \<and> get_gesture_confidence lms (fst e) = Inr c"
proof -
  from assms(1) obtain i where i: "i < 26" "e = rules ! i"
    by (auto simp: in_set_conv_nth length_rules)
  with assms(2) have "matches lms i \<and> get_gesture_confidence lms i = Inr c"
    by (simp add: candidate_rules_nth)
  with i show ?thesis by (simp add: rules_nth_key)
qed

lemma recognize_gesture_Some_D:
  assumes "recognize_gesture lms = (Some g, c)"
  shows "matches lms g" and "get_gesture_confidence lms g = Inr c" and "0.7 < c"
    and "\<And>h c'. matches lms h \<Longrightarrow> get_gesture_confidence lms h = Inr c' \<Longrightarrow> c' \<le> c"
    and "\<And>h c'. matches lms h \<Longrightarrow> get_gesture_confidence lms h = Inr c' \<Longrightarrow> h < g \<Longrightarrow> c' < c"
proof -
  from assms have r: "recognize_over rules lms = (Some g, c)" by (simp add: recognize_gesture_def)
  from recognize_over_Some [OF r]
  have gt: "0.7 < c"
    and up: "\<And>e c'. e \<in> set rules \<Longrightarrow> candidate rules lms e = Some c' \<Longrightarrow> c' \<le> c"
    and ex: "\<exists>i<length rules. (fst (rules ! i) = g \<and> candidate rules lms (rules ! i) = Some c) \<and>
        (\<forall>j<i. \<forall>c'. candidate rules lms (rules ! j) = Some c' \<longrightarrow> c' < c)"
    by blast+
  from ex obtain i where i: "i < 26" "fst (rules ! i) = g" "candidate rules lms (rules ! i) = Some c"
    and first: "\<And>j c'. j < i \<Longrightarrow> candidate rules lms (rules ! j) = Some c' \<Longrightarrow> c' < c"
    by (auto simp: length_rules)
  from i(1,2) have ig: "i = g" by (simp add: rules_nth_key)
  from i(1,3) ig show "matches lms g" and "get_gesture_confidence lms g = Inr c"
    by (simp_all add: candidate_rules_nth)
  show "0.7 < c" by (rule gt)
  show "c' \<le> c" if "matches lms h" "get_gesture_confidence lms h = Inr c'" for h c'
    using up [OF candidate_matches(2,3) [OF that]] .
  show "c' < c" if "matches lms h" "get_gesture_confidence lms h = Inr c'" "h < g" for h c'
    using first [of h c'] that(3) ig candidate_matches(3) [OF that(1,2)] by simp
qed

lemma recognize_gesture_None_D:
  assumes "fst (recognize_gesture lms) = None"
  shows "recognize_gesture lms = (None, 0)"
    and "\<And>h c'. matches lms h \<Longrightarrow> get_gesture_confidence lms h = Inr c' \<Longrightarrow> c' \<le> 0.7"
proof -
  from assms have r: "fst (recognize_over rules lms) = None" by (simp add: recognize_gesture_def)
  from recognize_over_None [OF r]
  have n: "recognize_over rules lms = (None, 0)"
    and up: "\<And>e c'. e \<in> set rules \<Longrightarrow> candidate rules lms e = Some c' \<Longrightarrow> c' \<le> 0.7"
    by blast+
  from n show "recognize_gesture lms = (None, 0)" by (simp add: recognize_gesture_def)
  show "c' \<le> 0.7" if "matches lms h" "get_gesture_confidence lms h = Inr c'" for h c'
    using up [OF candidate_matches(2,3) [OF that]] .
qed

lemma recognize_gesture_cases:
  obtains (none) "recognize_gesture lms = (None, 0)"
  | (some) g c where "recognize_gesture lms = (Some g, c)"
  using recognize_over_cases [of rules lms] by (auto simp: recognize_gesture_def)

lemma recognize_gesture_Some_I:
  assumes m: "matches lms g" and c: "get_gesture_confidence lms g = Inr c" and gt: "0.7 < c"
    and up: "\<And>h c'. matches lms h \<Longrightarrow> get_gesture_confidence lms h = Inr c' \<Longrightarrow> c' \<le> c"
    and first: "\<And>h c'. matches lms h \<Longrightarrow> get_gesture_confidence lms h = Inr c' \<Longrightarrow> h < g \<Longrightarrow> c' < c"
  shows "recognize_gesture lms = (Some g, c)"
proof (cases lms rule: recognize_gesture_cases)
  case none
  then have "fst (recognize_gesture lms) = None" by simp
  from recognize_gesture_None_D(2) [OF this m c] gt show ?thesis by simp
next
  case (some g' c')
  note d = recognize_gesture_Some_D [OF some]
  from d(4) [OF m c] up [OF d(1,2)] have cc: "c' = c" by simp
  have "g' = g"
  proof (rule ccontr)
    assume "g' \<noteq> g"
    then consider "g' < g" | "g < g'" by linarith
    then show False
    proof cases
      case 1
      from first [OF d(1,2) 1] cc show False by simp
    next
      case 2
      from d(5) [OF m c 2] cc show False by simp
    qed
  qed
  with some cc show ?thesis by simp
qed

lemma recognize_gesture_None_I:
  assumes "\<And>h c'. matches lms h \<Longrightarrow> get_gesture_confidence lms h = Inr c' \<Longrightarrow> c' \<le> 0.7"
  shows "recognize_gesture lms = (None, 0)"
proof (cases lms rule: recognize_gesture_cases)
  case none
  then show ?thesis .
next
  case (some g c)
  note d = recognize_gesture_Some_D [OF some]
  from assms [OF d(1,2)] d(3) show ?thesis by simp
qed

lemma confidence_over_21:
  assumes "length lms = 21"
  shows "confidence_over items lms g =
     Inr (max 0 (min (penalise lms g items (0.75 + reinforcement lms g) +
                      (if centred lms then 0.05 else 0)) 1))"
  by (simp add: confidence_over_def letter_adjust_21 [OF assms] bind_Inr item_ok assms
      centred_def Let_def)

lemma matches_hand_index_up: "matches hand_index_up 3" "matches hand_index_up 11"
  by (simp_all add: matches_def rules_def rules_hand_index_up)

text \<open>
  C1. On a hand of 21 landmarks every one of the 26 rules returns a boolean and the
  scorer returns a confidence for every letter. The selector returns letter \<open>g\<close> with
  confidence \<open>c\<close> exactly when the rule of \<open>g\<close> matches, \<open>c\<close> is the confidence of
  \<open>g\<close>, \<open>c\<close> is strictly greater than 0.7, no matching letter has a greater
  confidence, and every matching letter before \<open>g\<close> in the order A to Z has a strictly
  smaller one (the first letter wins a tie). It returns no letter, with confidence 0,
  exactly when no matching letter has a confidence above 0.7; it returns nothing else.
\<close>

theorem selector_first_maximum:
  assumes "length landmarks = 21"
  shows "(\<forall>g<26. \<exists>b. snd (rules ! g) landmarks = Inr b) \<and>
         (\<forall>g. \<exists>c. get_gesture_confidence landmarks g = Inr c) \<and>
         (\<forall>g c. recognize_gesture landmarks = (Some g, c) \<longleftrightarrow>
            matches landmarks g \<and> get_gesture_confidence landmarks g = Inr c \<and> 0.7 < c \<and>
            (\<forall>h c'. matches landmarks h \<and> get_gesture_confidence landmarks h = Inr c' \<longrightarrow>
               c' \<le> c \<and> (h < g \<longrightarrow> c' < c))) \<and>
         (recognize_gesture landmarks = (None, 0) \<longleftrightarrow>
            (\<forall>h c'. matches landmarks h \<and> get_gesture_confidence landmarks h = Inr c' \<longrightarrow>
               c' \<le> 0.7)) \<and>
         ((\<exists>g c. recognize_gesture landmarks = (Some g, c)) \<or>
          recognize_gesture landmarks = (None, 0))"
proof (intro conjI allI impI)
  fix g :: nat assume "g < 26"
  then have "rules ! g \<in> set rules" by (simp add: length_rules)
  from rule_total_21 [OF assms this] show "\<exists>b. snd (rules ! g) landmarks = Inr b" .
next
  fix g show "\<exists>c. get_gesture_confidence landmarks g = Inr c"
    by (simp add: get_gesture_confidence_def confidence_over_21 [OF assms])
next
  fix g c
  show "recognize_gesture landmarks = (Some g, c) \<longleftrightarrow>
          matches landmarks g \<and> get_gesture_confidence landmarks g = Inr c \<and> 0.7 < c \<and>
          (\<forall>h c'. matches landmarks h \<and> get_gesture_confidence landmarks h = Inr c' \<longrightarrow>
             c' \<le> c \<and> (h < g \<longrightarrow> c' < c))"
    (is "?L \<longleftrightarrow> ?R")
  proof
    assume l: ?L
    note d = recognize_gesture_Some_D [OF l]
    from d(1,2,3) d(4) d(5) show ?R by blast
  next
    assume r: ?R
    show ?L
    proof (rule recognize_gesture_Some_I)
      from r show "matches landmarks g" "get_gesture_confidence landmarks g = Inr c" "0.7 < c"
        by simp_all
      from r show "c' \<le> c"
        if "matches landmarks h" "get_gesture_confidence landmarks h = Inr c'" for h c'
        using that by blast
      from r show "c' < c"
        if "matches landmarks h" "get_gesture_confidence landmarks h = Inr c'" "h < g" for h c'
        using that by blast
    qed
  qed
next
  show "recognize_gesture landmarks = (None, 0) \<longleftrightarrow>
          (\<forall>h c'. matches landmarks h \<and> get_gesture_confidence landmarks h = Inr c' \<longrightarrow> c' \<le> 0.7)"
    (is "?L \<longleftrightarrow> ?R")
  proof
    assume ?L
    then have "fst (recognize_gesture landmarks) = None" by simp
    from recognize_gesture_None_D(2) [OF this] show ?R by blast
  next
    assume r: ?R
    show ?L by (rule recognize_gesture_None_I) (use r in blast)
  qed
next
  show "(\<exists>g c. recognize_gesture landmarks = (Some g, c)) \<or>
        recognize_gesture landmarks = (None, 0)"
    by (cases landmarks rule: recognize_gesture_cases) blast+
qed

theorem selector_first_maximum_witness:
  "length hand_index_up = 21 \<and>
   recognize_gesture hand_index_up = (Some 3, 0.8) \<and>
   (matches hand_index_up 3 \<and> get_gesture_confidence hand_index_up 3 = Inr 0.8) \<and>
   (matches hand_index_up 11 \<and> get_gesture_confidence hand_index_up 11 = Inr 0.8) \<and>
   recognize_gesture hand_index_up \<noteq> (Some 11, 0.8)"
proof -
  note t = selector_first_maximum [OF length_hand_index_up]
  from t have iff: "recognize_gesture hand_index_up = (Some 3, 0.8) \<longleftrightarrow>
      matches hand_index_up 3 \<and> get_gesture_confidence hand_index_up 3 = Inr 0.8 \<and> 0.7 < (0.8::real) \<and>
      (\<forall>h c'. matches hand_index_up h \<and> get_gesture_confidence hand_index_up h = Inr c' \<longrightarrow>
         c' \<le> 0.8 \<and> (h < 3 \<longrightarrow> c' < 0.8))"
    by blast
  from iff recognize_hand_index_up
  have "matches hand_index_up 3 \<and> get_gesture_confidence hand_index_up 3 = Inr 0.8" by blast
  moreover have "get_gesture_confidence hand_index_up 11 = Inr 0.8"
    by (simp add: get_gesture_confidence_def confidence_hand_index_up)
  ultimately show ?thesis
    by (simp add: length_hand_index_up recognize_hand_index_up matches_hand_index_up)
qed

subsection \<open>The penalty loop\<close>

lemma penalise_funpow:
  "penalise lms g items c =
     ((\<lambda>c. c - 0.1) ^^ length (filter (\<lambda>e. fst e \<noteq> g \<and> snd e lms = Inr True) items)) c"
proof (induction items arbitrary: c)
  case Nil
  then show ?case by simp
next
  case (Cons e items)
  obtain i r where e: "e = (i, r)" by (cases e)
  show ?case
  proof (cases "i \<noteq> g \<and> r lms = Inr True")
    case True
    have "((\<lambda>c. c - 0.1) ^^ n) (c - 0.1) = ((\<lambda>c. c - 0.1) ^^ n) c - (0.1::real)" for n
      using funpow_swap1 [of "\<lambda>c::real. c - 0.1" n c] by simp
    with True show ?thesis by (simp add: e Cons.IH)
  next
    case False
    then show ?thesis by (cases "r lms") (auto simp: e Cons.IH split: bool.splits)
  qed
qed

lemma length_filter_sum:
  "length (filter P xs) = sum_list (map (\<lambda>x. of_bool (P x)) xs)"
  by (induction xs) simp_all

lemma rule_J_eq: "rule_J = rule_I"
  by (rule ext) (simp only: rule_J_def rule_I_def)

lemma rule_Z_eq: "rule_Z = rule_P"
  by (rule ext) (simp only: rule_Z_def rule_P_def)

lemma count_others_I_J:
  "length (filter (\<lambda>e. fst e \<noteq> 9 \<and> snd e lms = Inr True) rules) =
   length (filter (\<lambda>e. fst e \<noteq> 8 \<and> snd e lms = Inr True) rules)"
  unfolding length_filter_sum rules_def by (simp add: rule_J_eq)

lemma count_others_P_Z:
  "length (filter (\<lambda>e. fst e \<noteq> 25 \<and> snd e lms = Inr True) rules) =
   length (filter (\<lambda>e. fst e \<noteq> 15 \<and> snd e lms = Inr True) rules)"
  unfolding length_filter_sum rules_def by (simp add: rule_Z_eq)

lemma letter_adjust_plain:
  "letter_adjust lms 8 c = Inr c" "letter_adjust lms 9 c = Inr c"
  "letter_adjust lms 15 c = Inr c" "letter_adjust lms 25 c = Inr c"
  by (simp_all add: letter_adjust_def)

lemma confidence_I_J: "get_gesture_confidence lms 9 = get_gesture_confidence lms 8"
  by (simp add: get_gesture_confidence_def confidence_over_def letter_adjust_plain
      penalise_funpow count_others_I_J)

lemma confidence_P_Z: "get_gesture_confidence lms 25 = get_gesture_confidence lms 15"
  by (simp add: get_gesture_confidence_def confidence_over_def letter_adjust_plain
      penalise_funpow count_others_P_Z)

lemma matches_I_J_P_Z:
  "matches lms 8 \<longleftrightarrow> rule_I lms = Inr True" "matches lms 9 \<longleftrightarrow> rule_I lms = Inr True"
  "matches lms 15 \<longleftrightarrow> rule_P lms = Inr True" "matches lms 25 \<longleftrightarrow> rule_P lms = Inr True"
  by (simp_all add: matches_def rules_def rule_J_eq rule_Z_eq)

text \<open>
  C9. The selector never returns letter J (id 9) and never returns letter Z (id 25).
  The rule of J returns what the rule of I (id 8) returns, and the rule of Z what the
  rule of P (id 15) returns; the scorer gives J the confidence of I and Z the confidence
  of P; the earlier letter of each pair is met first and the strict comparison keeps it.
\<close>

theorem never_J_never_Z:
  "rule_J landmarks = rule_I landmarks \<and>
   rule_Z landmarks = rule_P landmarks \<and>
   get_gesture_confidence landmarks 9 = get_gesture_confidence landmarks 8 \<and>
   get_gesture_confidence landmarks 25 = get_gesture_confidence landmarks 15 \<and>
   fst (recognize_gesture landmarks) \<noteq> Some 9 \<and>
   fst (recognize_gesture landmarks) \<noteq> Some 25"
proof -
  have j: "fst (recognize_gesture landmarks) \<noteq> Some 9"
  proof
    assume "fst (recognize_gesture landmarks) = Some 9"
    then have r: "recognize_gesture landmarks = (Some 9, snd (recognize_gesture landmarks))"
      by (cases "recognize_gesture landmarks") simp
    note d = recognize_gesture_Some_D [OF r]
    from d(1) have "matches landmarks 8" by (simp add: matches_I_J_P_Z)
    moreover from d(2)
    have "get_gesture_confidence landmarks 8 = Inr (snd (recognize_gesture landmarks))"
      by (simp add: confidence_I_J)
    ultimately have "snd (recognize_gesture landmarks) < snd (recognize_gesture landmarks)"
      by (rule d(5)) simp
    then show False by simp
  qed
  have z: "fst (recognize_gesture landmarks) \<noteq> Some 25"
  proof
    assume "fst (recognize_gesture landmarks) = Some 25"
    then have r: "recognize_gesture landmarks = (Some 25, snd (recognize_gesture landmarks))"
      by (cases "recognize_gesture landmarks") simp
    note d = recognize_gesture_Some_D [OF r]
    from d(1) have "matches landmarks 15" by (simp add: matches_I_J_P_Z)
    moreover from d(2)
    have "get_gesture_confidence landmarks 15 = Inr (snd (recognize_gesture landmarks))"
      by (simp add: confidence_P_Z)
    ultimately have "snd (recognize_gesture landmarks) < snd (recognize_gesture landmarks)"
      by (rule d(5)) simp
    then show False by simp
  qed
  from j z show ?thesis by (simp add: rule_J_eq rule_Z_eq confidence_I_J confidence_P_Z)
qed

subsection \<open>The scorer\<close>












subsection \<open>Evaluation on the fist\<close>

lemma length_hand_fist: "length hand_fist = 21"
  by (simp add: hand_fist_def)

lemma finger_closed_hand_fist:
  "finger_closed hand_fist 0" "finger_closed hand_fist 1"
  "finger_closed hand_fist 2" "finger_closed hand_fist 3"
  "finger_closed hand_fist 4"
  by (simp_all add: finger_closed_def hand_fist_def get_distance_def)

lemma is_finger_closed_hand_fist:
  "is_finger_closed hand_fist 0 = Inr True"
  "is_finger_closed hand_fist 1 = Inr True"
  "is_finger_closed hand_fist 2 = Inr True"
  "is_finger_closed hand_fist 3 = Inr True"
  "is_finger_closed hand_fist 4 = Inr True"
  "is_finger_closed hand_fist (Suc 0) = Inr True"
  using finger_closed_hand_fist
  by (simp_all add: is_finger_closed_21 length_hand_fist)

lemma with2_hand_fist:
  "i < 21 \<Longrightarrow> j < 21 \<Longrightarrow> with2 hand_fist i j f = Inr (f (hand_fist ! i) (hand_fist ! j))"
  by (simp add: with2_ok length_hand_fist)

lemma hand_fist_nth:
  "hand_fist ! 0 = pt 0.125 0.5 0"
  "hand_fist ! 3 = pt 0.25 0.625 0"
  "hand_fist ! 4 = pt 0.75 0.5 0"
  "hand_fist ! 5 = pt 0.5 0.5 0"
  "hand_fist ! 6 = pt 0.5 0.375 0"
  "hand_fist ! 7 = pt 0.5 0.5 0"
  "hand_fist ! 8 = pt 0.5 0.5 0"
  "hand_fist ! 9 = pt 0.5 0.5 0"
  "hand_fist ! 10 = pt 0.5 0.375 0"
  "hand_fist ! 12 = pt 0.5 0.5 0"
  by (simp_all add: hand_fist_def)

lemma rules_hand_fist:
  "rule_A hand_fist = Inr False" "rule_B hand_fist = Inr False"
  "rule_C hand_fist = Inr False" "rule_D hand_fist = Inr False"
  "rule_E hand_fist = Inr True" "rule_F hand_fist = Inr False"
  "rule_G hand_fist = Inr False" "rule_H hand_fist = Inr False"
  "rule_I hand_fist = Inr False" "rule_J hand_fist = Inr False"
  "rule_K hand_fist = Inr False" "rule_L hand_fist = Inr False"
  "rule_M hand_fist = Inr False" "rule_N hand_fist = Inr False"
  "rule_O hand_fist = Inr False" "rule_P hand_fist = Inr False"
  "rule_Q hand_fist = Inr False" "rule_R hand_fist = Inr False"
  "rule_S hand_fist = Inr False" "rule_T hand_fist = Inr False"
  "rule_U hand_fist = Inr False" "rule_V hand_fist = Inr False"
  "rule_W hand_fist = Inr False" "rule_X hand_fist = Inr False"
  "rule_Y hand_fist = Inr False" "rule_Z hand_fist = Inr False"
  by (simp_all add: rule_defs is_finger_closed_hand_fist not_expr_Inr with2_hand_fist
      hand_fist_nth get_distance_def)

lemma item0_hand_fist: "item hand_fist 0 = Inr (pt 0.125 0.5 0)"
  by (simp add: item_ok length_hand_fist hand_fist_nth)

lemma confidence_hand_fist:
  "confidence_over rules hand_fist 4 = Inr 0.75"
  "confidence_over rules_L_first hand_fist 4 = Inr 0.75"
  by (simp_all add: confidence_over_def letter_adjust_def bind_Inr rules_def rules_L_first_def
      rules_hand_fist item0_hand_fist)

lemma scan_hand_fist:
  assumes "confidence_over items hand_fist 4 = Inr 0.75"
  shows "foldl (recognize_step items hand_fist) (None, 0) rules = (Some 4, 0.75)"
    and "foldl (recognize_step items hand_fist) (None, 0) rules_L_first = (Some 4, 0.75)"
  using assms
  by (simp_all add: recognize_step_def rules_def rules_L_first_def rules_hand_fist)

lemma recognize_hand_fist: "recognize_gesture hand_fist = (Some 4, 0.75)"
  by (simp add: recognize_gesture_def recognize_over_def
      scan_hand_fist(1) [OF confidence_hand_fist(1)])

lemma recognize_L_first_hand_fist: "recognize_over rules_L_first hand_fist = (Some 4, 0.75)"
  by (simp add: recognize_over_def scan_hand_fist(2) [OF confidence_hand_fist(2)])

lemma matches_hand_fist: "matches hand_fist g \<longleftrightarrow> g = 4"
  by (simp add: matches_def rules_def rules_hand_fist)

lemma filter_eq_single: "distinct xs \<Longrightarrow> a \<in> set xs \<Longrightarrow> filter (\<lambda>b. b = a) xs = [a]"
  by (induction xs) (auto simp: filter_empty_conv)

lemma best_letters_hand_fist: "best_letters hand_fist 0.75 = [4]"
proof -
  have "(matches hand_fist g \<and> get_gesture_confidence hand_fist g = Inr 0.75) \<longleftrightarrow> g = 4" for g
    by (auto simp: matches_hand_fist get_gesture_confidence_def confidence_hand_fist)
  then have "best_letters hand_fist 0.75 = filter (\<lambda>g. g = 4) [0..<26]"
    by (simp add: best_letters_def)
  also have "\<dots> = [4]" by (rule filter_eq_single) simp_all
  finally show ?thesis .
qed

lemma mset_rules_L_first: "mset rules_L_first = mset rules"
  by (simp add: rules_def rules_L_first_def)

subsection \<open>The order of the rule dictionary\<close>

lemma length_filter_mset:
  assumes "mset xs = mset ys"
  shows "length (filter P xs) = length (filter P ys)"
proof -
  have "mset (filter P xs) = mset (filter P ys)" using assms by simp
  then have "size (mset (filter P xs)) = size (mset (filter P ys))" by simp
  then show ?thesis by (simp only: size_mset)
qed

lemma confidence_over_perm:
  assumes "mset items = mset rules"
  shows "confidence_over items lms g = get_gesture_confidence lms g"
  by (simp add: get_gesture_confidence_def confidence_over_def penalise_funpow
      length_filter_mset [OF assms])

lemma candidate_perm:
  assumes "mset items = mset rules"
  shows "candidate items lms e = candidate rules lms e"
  unfolding candidate_def confidence_over_perm [OF assms] get_gesture_confidence_def ..

lemma candidate_entry:
  assumes "e \<in> set rules"
  shows "candidate rules lms e = Some c \<longleftrightarrow>
           matches lms (fst e) \<and> get_gesture_confidence lms (fst e) = Inr c"
proof -
  from assms obtain i where i: "i < 26" "e = rules ! i"
    by (auto simp: in_set_conv_nth length_rules)
  then show ?thesis by (simp add: candidate_rules_nth rules_nth_key)
qed

lemma best_letters_iff:
  "g \<in> set (best_letters lms c) \<longleftrightarrow> matches lms g \<and> get_gesture_confidence lms g = Inr c"
  by (auto simp: best_letters_def matches_iff)

lemma recognize_over_perm_cases:
  assumes perm: "mset items = mset rules"
  obtains (none) "recognize_over items lms = (None, 0)" and "recognize_gesture lms = (None, 0)"
  | (some) g g' c where "recognize_over items lms = (Some g, c)"
      and "recognize_gesture lms = (Some g', c)"
      and "g \<in> set (best_letters lms c)" and "g' \<in> set (best_letters lms c)"
      and "\<exists>i<length items. fst (items ! i) = g \<and>
             (\<forall>j<i. fst (items ! j) \<notin> set (best_letters lms c))"
proof -
  from perm have sets: "set items = set rules" by (rule mset_eq_setD)
  note cand = candidate_perm [OF perm]
  show thesis
  proof (cases "fst (recognize_over items lms)")
    case None
    from recognize_over_None [OF None]
    have n: "recognize_over items lms = (None, 0)"
      and up: "\<And>e c'. e \<in> set items \<Longrightarrow> candidate items lms e = Some c' \<Longrightarrow> c' \<le> 0.7"
      by blast+
    have "recognize_gesture lms = (None, 0)"
    proof (rule recognize_gesture_None_I)
      fix h c' assume h: "matches lms h" "get_gesture_confidence lms h = Inr c'"
      from candidate_matches(2,3) [OF h] sets cand
      have "rules ! h \<in> set items" "candidate items lms (rules ! h) = Some c'" by simp_all
      then show "c' \<le> 0.7" by (rule up)
    qed
    with n show thesis by (rule none)
  next
    case (Some g)
    then have r: "recognize_over items lms = (Some g, snd (recognize_over items lms))"
      by (cases "recognize_over items lms") simp
    define c where "c = snd (recognize_over items lms)"
    from r have rc: "recognize_over items lms = (Some g, c)" by (simp add: c_def)
    from recognize_over_Some [OF rc]
    have gt: "0.7 < c"
      and up: "\<And>e c'. e \<in> set items \<Longrightarrow> candidate items lms e = Some c' \<Longrightarrow> c' \<le> c"
      and ex: "\<exists>i<length items. (fst (items ! i) = g \<and> candidate items lms (items ! i) = Some c) \<and>
          (\<forall>j<i. \<forall>c'. candidate items lms (items ! j) = Some c' \<longrightarrow> c' < c)"
      by blast+
    from ex obtain i where i: "i < length items" "fst (items ! i) = g"
        "candidate items lms (items ! i) = Some c"
      and first: "\<And>j c'. j < i \<Longrightarrow> candidate items lms (items ! j) = Some c' \<Longrightarrow> c' < c"
      by blast
    from i(1) sets have ei: "items ! i \<in> set rules" by (metis nth_mem)
    from i(3) cand have "candidate rules lms (items ! i) = Some c" by simp
    with candidate_entry [OF ei] i(2)
    have g: "matches lms g" "get_gesture_confidence lms g = Inr c" by simp_all
    have upper: "c' \<le> c" if "matches lms h" "get_gesture_confidence lms h = Inr c'" for h c'
    proof -
      from candidate_matches(2,3) [OF that] sets cand
      have "rules ! h \<in> set items" "candidate items lms (rules ! h) = Some c'" by simp_all
      then show ?thesis by (rule up)
    qed
    have before: "fst (items ! j) \<notin> set (best_letters lms c)" if "j < i" for j
    proof
      assume "fst (items ! j) \<in> set (best_letters lms c)"
      then have b: "matches lms (fst (items ! j))"
          "get_gesture_confidence lms (fst (items ! j)) = Inr c"
        by (simp_all add: best_letters_iff)
      from that i(1) sets have ej: "items ! j \<in> set rules" by (metis nth_mem order.strict_trans)
      from candidate_entry [OF ej] b cand have "candidate items lms (items ! j) = Some c" by simp
      from first [OF that this] show False by simp
    qed
    have "\<exists>g'. recognize_gesture lms = (Some g', c) \<and> g' \<in> set (best_letters lms c)"
    proof (cases lms rule: recognize_gesture_cases)
      case none
      then have "fst (recognize_gesture lms) = None" by simp
      from recognize_gesture_None_D(2) [OF this g] gt show ?thesis by simp
    next
      case (some g' c')
      note d = recognize_gesture_Some_D [OF some]
      from d(4) [OF g] upper [OF d(1,2)] have "c' = c" by simp
      with some d(1,2) show ?thesis by (simp add: best_letters_iff)
    qed
    then obtain g' where g': "recognize_gesture lms = (Some g', c)" "g' \<in> set (best_letters lms c)"
      by blast
    show thesis
    proof (rule some [OF rc g'(1) _ g'(2)])
      from g show "g \<in> set (best_letters lms c)" by (simp add: best_letters_iff)
      from i(1,2) before
      show "\<exists>i<length items. fst (items ! i) = g \<and>
             (\<forall>j<i. fst (items ! j) \<notin> set (best_letters lms c))"
        by blast
    qed
  qed
qed

lemma at_most_one_element:
  "length xs \<le> 1 \<Longrightarrow> a \<in> set xs \<Longrightarrow> b \<in> set xs \<Longrightarrow> a = b"
  by (cases xs) auto

text \<open>
  C7, as the specification states it, fails. On the hand below, of 21 landmarks, the
  rules of D (id 3) and of L (id 11) both match, each with confidence 0.8. In the order
  A to Z the selector returns D; with the entry of L moved in front of the entry of D
  it returns L.
\<close>

theorem selection_depends_on_order:
  "mset rules_L_first = mset rules \<and>
   length hand_index_up = 21 \<and>
   recognize_gesture hand_index_up = (Some 3, 0.8) \<and>
   recognize_over rules_L_first hand_index_up = (Some 11, 0.8)"
  by (simp add: mset_rules_L_first length_hand_index_up recognize_hand_index_up
      recognize_L_first_hand_index_up)

text \<open>
  C7, amended. Evaluating the 26 rules in another order changes neither the confidence
  that the selector returns nor whether it returns a letter. The letter it returns is
  one of the matching letters to which the scorer gives that confidence, the one that
  comes first in the order of evaluation. When at most one matching letter has that
  confidence, the result is the same in every order.
\<close>

theorem selection_under_permutation:
  assumes "mset items = mset rules"
  shows "snd (recognize_over items landmarks) = snd (recognize_gesture landmarks) \<and>
     (fst (recognize_over items landmarks) = None \<longleftrightarrow> fst (recognize_gesture landmarks) = None) \<and>
     (\<forall>g. fst (recognize_over items landmarks) = Some g \<longrightarrow>
        g \<in> set (best_letters landmarks (snd (recognize_gesture landmarks))) \<and>
        (\<exists>i<length items. fst (items ! i) = g \<and>
           (\<forall>j<i. fst (items ! j) \<notin> set (best_letters landmarks (snd (recognize_gesture landmarks)))))) \<and>
     (length (best_letters landmarks (snd (recognize_gesture landmarks))) \<le> 1 \<longrightarrow>
        recognize_over items landmarks = recognize_gesture landmarks)"
  using assms
proof (cases rule: recognize_over_perm_cases [where lms = landmarks])
  case none
  then show ?thesis by simp
next
  case (some g g' c)
  have "g = g'" if "length (best_letters landmarks c) \<le> 1"
    using that some(3,4) by (rule at_most_one_element)
  with some show ?thesis by simp
qed

theorem selection_under_permutation_witness:
  "mset rules_L_first = mset rules \<and>
   length (best_letters hand_fist 0.75) \<le> 1 \<and>
   recognize_gesture hand_fist = (Some 4, 0.75) \<and>
   recognize_over rules_L_first hand_fist = (Some 4, 0.75)"
proof -
  have one: "length (best_letters hand_fist 0.75) \<le> 1"
    by (simp only: best_letters_hand_fist) simp
  then have "length (best_letters hand_fist (snd (recognize_gesture hand_fist))) \<le> 1"
    by (simp only: recognize_hand_fist snd_conv)
  with selection_under_permutation [OF mset_rules_L_first, of hand_fist]
  have "recognize_over rules_L_first hand_fist = recognize_gesture hand_fist" by blast
  with one show ?thesis by (simp add: mset_rules_L_first recognize_hand_fist)
qed

subsection \<open>Sequences that lack landmarks\<close>







subsection \<open>Evaluation on the sequence of nine landmarks\<close>











subsection \<open>Malformed input\<close>




end
